theory Spec2Isabelle
  imports Main "HOL-Library.Char_ord" "HOL-Library.List_Lexorder" "HOL-Library.Product_Lexorder"
    "HOL-Library.Multiset"
begin

section \<open>Data model of the dashboard\<close>

text \<open>
  What the reader of the table makes of one cell of the country or the device
  column: nothing when the cell is empty or holds a marker of a missing value, a
  whole number when the column holds numbers, and the text of the cell otherwise.
\<close>

datatype cell = Missing | Num int | Str string

text \<open>
  One row of the event table read by \<open>load_data\<close>. The timestamp is the naive
  date-time of the row, kept as the number of nanoseconds since the epoch (the
  value a parsed date-time column stores); the event type is a string.
  The optional per-app columns are not read by the scoring or by the alert rule.
\<close>

record row =
  timestamp :: int
  event :: string
  country :: cell
  device :: cell

definition ns_per_minute :: int where
  "ns_per_minute = 60000000000"

definition ns_per_hour :: int where
  "ns_per_hour = 3600000000000"

text \<open>The \<open>.hour\<close> attribute of a timestamp: the hour of the day, 0 to 23.\<close>

definition hour_of :: "int \<Rightarrow> int" where
  "hour_of ts = (ts div ns_per_hour) mod 24"

section \<open>Risk scoring\<close>

text \<open>\<open>dict.get(key, default)\<close> on a dictionary literal.\<close>

definition dict_get :: "('k \<times> 'v) list \<Rightarrow> 'k \<Rightarrow> 'v \<Rightarrow> 'v" where
  "dict_get d k dflt = (case map_of d k of Some v \<Rightarrow> v | None \<Rightarrow> dflt)"

definition base_scores :: "(string \<times> int) list" where
  "base_scores =
     [(''root_detected'', 30),
      (''hooking_attempt'', 25),
      (''emulator_detected'', 20),
      (''debugger_attached'', 15)]"

text \<open>
  The list of the two country names. A country that is missing or a number is
  equal to neither of them.
\<close>

definition high_risk_countries :: "cell list" where
  "high_risk_countries = [Str ''USA'', Str ''Germany'']"

text \<open>
  The value of the local variable \<open>score\<close> of \<open>calculate_risk_score\<close> when the
  \<open>return\<close> statement is reached, before the cap.
\<close>

definition uncapped_score :: "string \<Rightarrow> cell \<Rightarrow> int \<Rightarrow> int" where
  "uncapped_score ev ctry ts =
     (let score = dict_get base_scores ev 10;
          score = (if ctry \<in> set high_risk_countries then score + 10 else score);
          hour = hour_of ts;
          score = (if hour < 6 \<or> hour > 22 then score + 5 else score)
      in score)"

definition calculate_risk_score :: "string \<Rightarrow> cell \<Rightarrow> int \<Rightarrow> int" where
  "calculate_risk_score ev ctry ts = min (uncapped_score ev ctry ts) 100"

definition get_risk_level :: "int \<Rightarrow> string" where
  "get_risk_level score =
     (if score \<ge> 76 then ''Critical''
      else if score \<ge> 51 then ''High''
      else if score \<ge> 26 then ''Medium''
      else ''Low'')"

text \<open>The two derived columns \<open>risk_score\<close> and \<open>risk_level\<close> of a row.\<close>

definition risk_score :: "row \<Rightarrow> int" where
  "risk_score r = calculate_risk_score (event r) (country r) (timestamp r)"

definition risk_level :: "row \<Rightarrow> string" where
  "risk_level r = get_risk_level (risk_score r)"

subsection \<open>The scoring rule as the specification words it\<close>

definition spec_base :: "string \<Rightarrow> int" where
  "spec_base e =
     (if e = ''root_detected'' then 30
      else if e = ''hooking_attempt'' then 25
      else if e = ''emulator_detected'' then 20
      else if e = ''debugger_attached'' then 15
      else 10)"

definition spec_risk_score :: "string \<Rightarrow> string \<Rightarrow> int \<Rightarrow> int" where
  "spec_risk_score e c h =
     min (spec_base e
          + (if c \<in> {''USA'', ''Germany''} then 10 else 0)
          + (if h < 6 \<or> h > 22 then 5 else 0)) 100"

section \<open>The alert rule\<close>

text \<open>
  The text an f-string placeholder puts for an integer: its decimal digits, with a
  minus sign in front of a negative number.
\<close>

definition digit_char :: "nat \<Rightarrow> char" where
  "digit_char d = ''0123456789'' ! d"

fun decimal :: "nat \<Rightarrow> string" where
  "decimal n = (if 10 \<le> n then decimal (n div 10) @ [digit_char (n mod 10)] else [digit_char n])"

declare decimal.simps [simp del]

definition py_str :: "int \<Rightarrow> string" where
  "py_str i = (if 0 \<le> i then decimal (nat i) else CHR ''-'' # decimal (nat (- i)))"

text \<open>
  One entry of the list \<open>alerts\<close>. The dictionary of the source has the keys
  \<open>time\<close>, \<open>scope\<close>, \<open>rule\<close> and a fourth key whose name is the value of
  \<open>group_key\<close>; \<open>key_value\<close> is the entry stored under that fourth key.
\<close>

record alert =
  time :: int
  scope :: string
  key_value :: cell
  rule :: string

text \<open>
  The text of the rule. The seven bytes between \<open>Emulator\<close> and the threshold
  are the bytes the source file holds at that place.
\<close>

definition rule_text :: "int \<Rightarrow> int \<Rightarrow> string" where
  "rule_text threshold window_min =
     ''Emulator'' @ [CHR 0xC3, CHR 0xA2, CHR 0xE2, CHR 0x80, CHR 0xB0, CHR 0xC2, CHR 0xA5]
     @ py_str threshold @ '' in '' @ py_str window_min @ '' min''"

definition group_key :: "string \<Rightarrow> string" where
  "group_key scp = (if scp = ''Per country'' then ''country'' else ''device'')"

text \<open>The column of the table that \<open>group_key\<close> names (country or device).\<close>

definition column :: "string \<Rightarrow> row \<Rightarrow> cell" where
  "column name r = (if name = ''country'' then country r else device r)"

text \<open>
  The order in which \<open>groupby\<close> puts the keys: numbers by their value, texts
  by their characters. A column holds numbers or texts, not both; the first
  component only makes the order total.
\<close>

fun cell_rank :: "cell \<Rightarrow> nat \<times> int \<times> string" where
  "cell_rank Missing = (0, 0, [])"
| "cell_rank (Num n) = (1, n, [])"
| "cell_rank (Str s) = (2, 0, s)"

text \<open>
  \<open>groupby\<close>: rows whose key is missing belong to no group, the groups come in
  ascending order of their key, and the rows of a group keep the order they have
  in the table.
\<close>

definition groupby :: "(row \<Rightarrow> cell) \<Rightarrow> row list \<Rightarrow> (cell \<times> row list) list" where
  "groupby f rows =
     map (\<lambda>k. (k, filter (\<lambda>r. f r = k) rows))
       (sort_key cell_rank (remdups (filter (\<lambda>k. k \<noteq> Missing) (map f rows))))"

text \<open>
  \<open>rolling(window).count()\<close> over a time index, with the library's default
  closing of the window on the right: going down the rows, the window of a row
  keeps the rows of the previous window whose index is later than the row's own
  index minus the window length, dropped from the front, and then takes the row
  itself; rows further down are not looked at. Every value of the column counted
  here is a string, so the count is the number of rows of the window.
\<close>

fun rolling_count_from :: "int \<Rightarrow> int list \<Rightarrow> int list \<Rightarrow> nat list" where
  "rolling_count_from w win [] = []"
| "rolling_count_from w win (t # ts) =
     (let win' = dropWhile (\<lambda>s. s \<le> t - w) win @ [t]
      in length win' # rolling_count_from w win' ts)"

definition rolling_count :: "int \<Rightarrow> int list \<Rightarrow> nat list" where
  "rolling_count w idx = rolling_count_from w [] idx"

text \<open>The body of the loop over the groups: the alerts one group appends.\<close>

definition group_alerts :: "int \<Rightarrow> int \<Rightarrow> string \<Rightarrow> cell \<times> row list \<Rightarrow> alert list" where
  "group_alerts window_min threshold gk kg =
     (let key = fst kg; g = snd kg;
          counts = rolling_count (window_min * ns_per_minute) (map timestamp g);
          hits = filter (\<lambda>tc. int (snd tc) \<ge> threshold) (zip (map timestamp g) counts)
      in map (\<lambda>tc. \<lparr>time = fst tc, scope = gk, key_value = key,
                     rule = rule_text threshold window_min\<rparr>) hits)"

text \<open>
  The list \<open>alerts\<close> at the end of the loop, from the trigger rows \<open>base\<close>: the
  rows are sorted by timestamp, grouped, and each group appends its alerts. Rows
  with equal timestamps keep their table order in this sort; an alert holds only
  the timestamp and the group key of its row, so another order of such rows gives
  the same list (lemma \<open>alerts_sort_independent\<close>).
\<close>

definition alerts :: "int \<Rightarrow> int \<Rightarrow> string \<Rightarrow> row list \<Rightarrow> alert list" where
  "alerts window_min threshold scp base =
     (let base = sort_key timestamp base;
          gk = group_key scp
      in concat (map (group_alerts window_min threshold gk) (groupby (column gk) base)))"

text \<open>The rows the rule looks at: \<open>filtered[filtered["event"] == "emulator_detected"]\<close>.\<close>

definition trigger_rows :: "row list \<Rightarrow> row list" where
  "trigger_rows filtered = filter (\<lambda>r. event r = ''emulator_detected'') filtered"

text \<open>What the alert section puts on the page.\<close>

datatype display =
    Info string
  | Error_table string "alert list"
  | Success string

text \<open>
  \<open>sort_values("time")\<close>: the table shown holds the same alerts, in ascending
  order of their time. The order among alerts of equal time is not fixed by the
  sort, so this is a relation between the list and the table shown.
\<close>

definition sort_values_time :: "alert list \<Rightarrow> alert list \<Rightarrow> bool" where
  "sort_values_time als shown \<longleftrightarrow> mset shown = mset als \<and> sorted (map time shown)"

text \<open>
  The alert section: \<open>alert_rule window_min threshold scp filtered page\<close> holds
  when \<open>page\<close> is what the section may put on the page for the table \<open>filtered\<close>.
\<close>

definition alert_rule :: "int \<Rightarrow> int \<Rightarrow> string \<Rightarrow> row list \<Rightarrow> display \<Rightarrow> bool" where
  "alert_rule window_min threshold scp filtered page =
     (let base = trigger_rows filtered
      in if base = [] then
           page = Info ''No emulator_detected events in the current filtered dataset.''
         else
           (let als = alerts window_min threshold scp base
            in if als \<noteq> [] then
                 (case page of
                    Error_table m shown \<Rightarrow>
                      m = ''ALERTS TRIGGERED: '' @ decimal (length als)
                      \<and> sort_values_time als shown
                  | Info m \<Rightarrow> False
                  | Success m \<Rightarrow> False)
               else page = Success ''No alerts triggered with current rule.''))"

text \<open>The alerts a page shows.\<close>

fun shown_alerts :: "display \<Rightarrow> alert list" where
  "shown_alerts (Info m) = []"
| "shown_alerts (Error_table m als) = als"
| "shown_alerts (Success m) = []"

subsection \<open>The window count as the specification words it\<close>

text \<open>
  The number of the timestamps of a group that lie in the trailing window
  \<open>(t - w, t]\<close>.
\<close>

definition spec_count :: "int \<Rightarrow> int list \<Rightarrow> int \<Rightarrow> nat" where
  "spec_count w g t = length (filter (\<lambda>s. t - w < s \<and> s \<le> t) g)"

subsection \<open>The scenario of the specification and other inputs\<close>

text \<open>A number of minutes, as a length of time in the unit of the timestamps.\<close>

definition at_minute :: "int \<Rightarrow> int" where
  "at_minute m = m * ns_per_minute"

definition emulator_row :: "int \<Rightarrow> cell \<Rightarrow> cell \<Rightarrow> row" where
  "emulator_row ts ctry dev =
     \<lparr>timestamp = ts, event = ''emulator_detected'', country = ctry, device = dev\<rparr>"

text \<open>
  Three trigger rows of device A at 10:00, 10:02 and 10:04 of the day that starts
  at \<open>d\<close>, with any three countries.
\<close>

definition scenario :: "int \<Rightarrow> cell \<Rightarrow> cell \<Rightarrow> cell \<Rightarrow> row list" where
  "scenario d c1 c2 c3 =
     [emulator_row (d + at_minute 600) c1 (Str ''A''),
      emulator_row (d + at_minute 602) c2 (Str ''A''),
      emulator_row (d + at_minute 604) c3 (Str ''A'')]"

text \<open>Two trigger rows of one device at the same instant.\<close>

definition tie_rows :: "row list" where
  "tie_rows =
     [emulator_row (at_minute 600) (Str ''France'') (Str ''A''),
      emulator_row (at_minute 600) (Str ''France'') (Str ''A'')]"

text \<open>Three trigger rows of device B at one instant.\<close>

definition burst_rows :: "row list" where
  "burst_rows =
     [emulator_row (at_minute 600) (Str ''France'') (Str ''B''),
      emulator_row (at_minute 600) (Str ''USA'') (Str ''B''),
      emulator_row (at_minute 600) (Str ''France'') (Str ''B'')]"

text \<open>
  Three trigger rows of device A: one at 09:59 and a burst of two at 10:00.
\<close>

definition late_burst_rows :: "row list" where
  "late_burst_rows =
     [emulator_row (at_minute 599) (Str ''France'') (Str ''A''),
      emulator_row (at_minute 600) (Str ''France'') (Str ''A''),
      emulator_row (at_minute 600) (Str ''France'') (Str ''A'')]"

text \<open>A trigger row whose device cell is empty.\<close>

definition keyless_row :: row where
  "keyless_row = emulator_row (at_minute 600) (Str ''France'') Missing"

definition root_row :: row where
  "root_row =
     \<lparr>timestamp = at_minute 601, event = ''root_detected'', country = Str ''USA'',
      device = Str ''A''\<rparr>"

text \<open>
  The scenario, a row of another event type, the burst, and the row without a
  device, in one table.
\<close>

definition mixed_rows :: "row list" where
  "mixed_rows =
     scenario 0 (Str ''France'') (Str ''USA'') (Str ''Spain'') @ [root_row] @ burst_rows
     @ [keyless_row]"

section \<open>Properties of the risk scoring\<close>

lemma base_lookup: "dict_get base_scores e 10 = spec_base e"
  by (simp add: dict_get_def base_scores_def spec_base_def)

lemma spec_base_range: "10 \<le> spec_base e \<and> spec_base e \<le> 30"
  by (simp add: spec_base_def)

lemma uncapped_sum:
  "uncapped_score e c ts =
     spec_base e
     + (if c \<in> set high_risk_countries then 10 else 0)
     + (if hour_of ts < 6 \<or> hour_of ts > 22 then 5 else 0)"
  by (simp add: uncapped_score_def base_lookup Let_def)

lemma uncapped_range: "10 \<le> uncapped_score e c ts \<and> uncapped_score e c ts \<le> 45"
  using spec_base_range [of e] by (simp add: uncapped_sum)

lemma score_is_uncapped: "calculate_risk_score e c ts = uncapped_score e c ts"
  using uncapped_range [of e c ts] by (simp add: calculate_risk_score_def)

text \<open>
  C2. For every event type, country and timestamp the score computed by the code
  is the base score of the event type (30, 25, 20, 15, otherwise 10), plus 10 for
  a country among USA and Germany, plus 5 when the hour of the day is below 6 or
  above 22, the sum capped at 100.
\<close>

theorem calculate_risk_score_formula:
  "calculate_risk_score e (Str c) ts = spec_risk_score e c (hour_of ts)"
  by (simp add: calculate_risk_score_def spec_risk_score_def uncapped_sum
      high_risk_countries_def)

text \<open>
  C3. On the scores 0 to 100 the level is Low exactly on 0..25, Medium exactly on
  26..50, High exactly on 51..75 and Critical exactly on 76..100; the seven
  boundary scores named by the specification get the levels it names.
\<close>

theorem get_risk_level_tiers:
  assumes "0 \<le> s" and "s \<le> 100"
  shows "(get_risk_level s = ''Low'' \<longleftrightarrow> s \<le> 25)
       \<and> (get_risk_level s = ''Medium'' \<longleftrightarrow> 26 \<le> s \<and> s \<le> 50)
       \<and> (get_risk_level s = ''High'' \<longleftrightarrow> 51 \<le> s \<and> s \<le> 75)
       \<and> (get_risk_level s = ''Critical'' \<longleftrightarrow> 76 \<le> s)
       \<and> get_risk_level 25 = ''Low''
       \<and> get_risk_level 26 = ''Medium''
       \<and> get_risk_level 50 = ''Medium''
       \<and> get_risk_level 51 = ''High''
       \<and> get_risk_level 75 = ''High''
       \<and> get_risk_level 76 = ''Critical''
       \<and> get_risk_level 100 = ''Critical''"
  using assms by (simp add: get_risk_level_def)

theorem get_risk_level_tiers_witness:
  "(0::int) \<le> 50 \<and> (50::int) \<le> 100
   \<and> get_risk_level 50 = ''Medium'' \<and> get_risk_level 50 \<noteq> ''High''"
  using get_risk_level_tiers [of 50] by simp

text \<open>
  C5. For every event type, country and timestamp the score is at least 10 and at
  most 100.
\<close>

theorem calculate_risk_score_bounds:
  "10 \<le> calculate_risk_score e c ts \<and> calculate_risk_score e c ts \<le> 100"
  using uncapped_range [of e c ts] by (simp add: score_is_uncapped)

text \<open>
  C6. With the event type and the timestamp fixed, a high-risk country scores
  exactly 10 more than a country that is not high-risk; with the event type and
  the country fixed, an off-hours timestamp scores exactly 5 more than an in-hours
  one. (The cap is never reached, so the increase is always the full bonus.)
\<close>

theorem calculate_risk_score_bonus_steps:
  "(c1 \<notin> set high_risk_countries \<and> c2 \<in> set high_risk_countries
      \<longrightarrow> calculate_risk_score e c2 ts = calculate_risk_score e c1 ts + 10)
   \<and> (\<not> (hour_of t1 < 6 \<or> hour_of t1 > 22) \<and> (hour_of t2 < 6 \<or> hour_of t2 > 22)
      \<longrightarrow> calculate_risk_score e c t2 = calculate_risk_score e c t1 + 5)"
  by (simp add: score_is_uncapped uncapped_sum)

theorem calculate_risk_score_bonus_steps_witness:
  "Str ''France'' \<notin> set high_risk_countries \<and> Str ''USA'' \<in> set high_risk_countries
   \<and> calculate_risk_score ''root_detected'' (Str ''France'') 0 = 35
   \<and> calculate_risk_score ''root_detected'' (Str ''USA'') 0 = 45
   \<and> \<not> (hour_of (10 * ns_per_hour) < 6 \<or> hour_of (10 * ns_per_hour) > 22)
   \<and> (hour_of 0 < 6 \<or> hour_of 0 > 22)
   \<and> calculate_risk_score ''root_detected'' (Str ''France'') (10 * ns_per_hour) = 30"
proof -
  have hr: "Str ''France'' \<notin> set high_risk_countries \<and> Str ''USA'' \<in> set high_risk_countries"
    by (simp add: high_risk_countries_def)
  have hours: "\<not> (hour_of (10 * ns_per_hour) < 6 \<or> hour_of (10 * ns_per_hour) > 22)
      \<and> (hour_of 0 < 6 \<or> hour_of 0 > 22)"
    by (simp add: hour_of_def ns_per_hour_def)
  have low: "calculate_risk_score ''root_detected'' (Str ''France'') (10 * ns_per_hour) = 30"
    using hr hours by (simp add: score_is_uncapped uncapped_sum spec_base_def)
  from calculate_risk_score_bonus_steps
    [of "Str ''France''" "Str ''USA''" "''root_detected''" 0 "10 * ns_per_hour" 0 "Str ''France''"]
  show ?thesis using hr hours low by simp
qed

text \<open>
  C9. The score never exceeds 45, so the cap at 100 never changes it, and the
  level of a row is always Low or Medium.
\<close>

theorem risk_score_at_most_45:
  "calculate_risk_score e c ts \<le> 45
   \<and> calculate_risk_score e c ts = uncapped_score e c ts
   \<and> uncapped_score e c ts < 100
   \<and> get_risk_level (calculate_risk_score e c ts) \<in> {''Low'', ''Medium''}
   \<and> risk_level r \<in> {''Low'', ''Medium''}"
proof -
  have a: "calculate_risk_score e c ts \<le> 45" for e c ts
    using uncapped_range [of e c ts] by (simp add: score_is_uncapped)
  have b: "get_risk_level s \<in> {''Low'', ''Medium''}" if "s \<le> 45" for s
    using that by (simp add: get_risk_level_def)
  show ?thesis
    using a [of e c ts] b [OF a] uncapped_range [of e c ts]
    by (simp add: score_is_uncapped risk_level_def risk_score_def)
qed

text \<open>
  C10. Two timestamps with the same hour of the day give the same score, for
  every event type and country.
\<close>

theorem calculate_risk_score_hour_only:
  "hour_of t1 = hour_of t2 \<Longrightarrow> calculate_risk_score e c t1 = calculate_risk_score e c t2"
  by (simp add: score_is_uncapped uncapped_sum)

theorem calculate_risk_score_hour_only_witness:
  "hour_of (3 * ns_per_hour + 7) = hour_of (27 * ns_per_hour + 1234567)
   \<and> calculate_risk_score ''hooking_attempt'' (Str ''Germany'') (3 * ns_per_hour + 7)
     = calculate_risk_score ''hooking_attempt'' (Str ''Germany'') (27 * ns_per_hour + 1234567)"
proof -
  have h: "hour_of (3 * ns_per_hour + 7) = hour_of (27 * ns_per_hour + 1234567)"
    by (simp add: hour_of_def ns_per_hour_def)
  show ?thesis
    using h calculate_risk_score_hour_only [OF h, of "''hooking_attempt''" "Str ''Germany''"]
    by simp
qed

section \<open>Properties of the alert rule\<close>

subsection \<open>Groups and counts\<close>

lemma rolling_count_from_length: "length (rolling_count_from w win ts) = length ts"
  by (induction ts arbitrary: win) (simp_all add: Let_def)

lemma rolling_count_from_pos: "c \<in> set (rolling_count_from w win ts) \<Longrightarrow> 1 \<le> c"
  by (induction ts arbitrary: win) (auto simp: Let_def)

lemma const_map_replicate: "\<forall>x\<in>set xs. f x = c \<Longrightarrow> map f xs = replicate (length xs) c"
  by (induction xs) auto

lemma group_alerts_key: "a \<in> set (group_alerts wm th gk (k, g)) \<Longrightarrow> key_value a = k"
  by (auto simp: group_alerts_def Let_def)

lemma group_alerts_threshold_1:
  "group_alerts wm 1 gk (k, g) =
     map (\<lambda>r. \<lparr>time = timestamp r, scope = gk, key_value = k, rule = rule_text 1 wm\<rparr>) g"
proof -
  let ?ts = "map timestamp g"
  let ?cs = "rolling_count (wm * ns_per_minute) ?ts"
  have len: "length ?cs = length ?ts"
    by (simp add: rolling_count_def rolling_count_from_length)
  have "\<forall>tc\<in>set (zip ?ts ?cs). (1::int) \<le> int (snd tc)"
    using rolling_count_from_pos by (fastforce simp: rolling_count_def dest: set_zip_rightD)
  then have hits: "filter (\<lambda>tc. int (snd tc) \<ge> 1) (zip ?ts ?cs) = zip ?ts ?cs"
    by simp
  have "map (\<lambda>tc. \<lparr>time = fst tc, scope = gk, key_value = k, rule = rule_text 1 wm\<rparr>) (zip ?ts ?cs)
      = map (\<lambda>t. \<lparr>time = t, scope = gk, key_value = k, rule = rule_text 1 wm\<rparr>) (map fst (zip ?ts ?cs))"
    by (simp add: comp_def)
  also have "map fst (zip ?ts ?cs) = ?ts"
    using len by (simp add: map_fst_zip)
  finally have main:
    "map (\<lambda>tc. \<lparr>time = fst tc, scope = gk, key_value = k, rule = rule_text 1 wm\<rparr>) (zip ?ts ?cs)
      = map (\<lambda>r. \<lparr>time = timestamp r, scope = gk, key_value = k, rule = rule_text 1 wm\<rparr>) g"
    by (simp add: comp_def)
  show ?thesis
    unfolding group_alerts_def Let_def fst_conv snd_conv hits by (rule main)
qed

lemma groups_mset:
  "distinct ks \<Longrightarrow>
   mset (concat (map (\<lambda>k. filter (\<lambda>r. f r = k) xs) ks)) = mset (filter (\<lambda>r. f r \<in> set ks) xs)"
proof (induction ks)
  case Nil
  then show ?case by simp
next
  case (Cons k ks)
  have "mset (filter (\<lambda>r. f r = k) xs) + mset (filter (\<lambda>r. f r \<in> set ks) xs)
      = mset (filter (\<lambda>r. f r = k \<or> f r \<in> set ks) xs)"
    using Cons.prems by (induction xs) auto
  with Cons show ?case by simp
qed

lemma groupby_key_list:
  "distinct (sort_key cell_rank (remdups (filter (\<lambda>k. k \<noteq> Missing) (map f rows))))
   \<and> set (sort_key cell_rank (remdups (filter (\<lambda>k. k \<noteq> Missing) (map f rows))))
     = {k \<in> f ` set rows. k \<noteq> Missing}"
  by auto

lemma groups_cover:
  "mset (concat (map snd (groupby f rows))) = mset (filter (\<lambda>r. f r \<noteq> Missing) rows)"
proof -
  let ?ks = "sort_key cell_rank (remdups (filter (\<lambda>k. k \<noteq> Missing) (map f rows)))"
  have "mset (concat (map snd (groupby f rows)))
      = mset (concat (map (\<lambda>k. filter (\<lambda>r. f r = k) rows) ?ks))"
    by (simp add: groupby_def comp_def)
  also have "\<dots> = mset (filter (\<lambda>r. f r \<in> set ?ks) rows)"
    using groupby_key_list [of f rows] by (intro groups_mset) blast
  also have "filter (\<lambda>r. f r \<in> set ?ks) rows = filter (\<lambda>r. f r \<noteq> Missing) rows"
    by (rule filter_cong) auto
  finally show ?thesis .
qed

lemma groupby_group:
  "kg \<in> set (groupby f rows) \<Longrightarrow> snd kg = filter (\<lambda>r. f r = fst kg) rows"
  by (auto simp: groupby_def)

lemma alerts_threshold_1_pairs:
  "map (\<lambda>a. (time a, key_value a)) (alerts wm 1 scp base)
   = map (\<lambda>r. (timestamp r, column (group_key scp) r))
       (concat (map snd (groupby (column (group_key scp)) (sort_key timestamp base))))"
proof -
  let ?f = "column (group_key scp)"
  let ?sb = "sort_key timestamp base"
  have one: "map (\<lambda>a. (time a, key_value a)) (group_alerts wm 1 (group_key scp) kg)
           = map (\<lambda>r. (timestamp r, ?f r)) (snd kg)" if "kg \<in> set (groupby ?f ?sb)" for kg
  proof -
    have "\<forall>r\<in>set (snd kg). ?f r = fst kg"
    proof
      fix r assume "r \<in> set (snd kg)"
      then have "r \<in> set (filter (\<lambda>r. ?f r = fst kg) ?sb)"
        using groupby_group [OF that] by simp
      then show "?f r = fst kg" by simp
    qed
    then have "map (\<lambda>r. (timestamp r, fst kg)) (snd kg) = map (\<lambda>r. (timestamp r, ?f r)) (snd kg)"
      by simp
    then show ?thesis
      using group_alerts_threshold_1 [of wm "group_key scp" "fst kg" "snd kg"]
      by (simp add: comp_def)
  qed
  have "map (\<lambda>a. (time a, key_value a)) (alerts wm 1 scp base)
      = concat (map (\<lambda>kg. map (\<lambda>a. (time a, key_value a)) (group_alerts wm 1 (group_key scp) kg))
          (groupby ?f ?sb))"
    by (simp add: alerts_def Let_def map_concat comp_def)
  also have "\<dots> = concat (map (\<lambda>kg. map (\<lambda>r. (timestamp r, ?f r)) (snd kg)) (groupby ?f ?sb))"
    using one by (simp cong: map_cong)
  also have "\<dots> = map (\<lambda>r. (timestamp r, ?f r)) (concat (map snd (groupby ?f ?sb)))"
    by (simp add: map_concat comp_def)
  finally show ?thesis .
qed

lemma alerts_threshold_1_mset:
  "mset (map (\<lambda>a. (time a, key_value a)) (alerts wm 1 scp base))
   = mset (map (\<lambda>r. (timestamp r, column (group_key scp) r))
       (filter (\<lambda>r. column (group_key scp) r \<noteq> Missing) base))"
  by (simp only: alerts_threshold_1_pairs mset_map groups_cover mset_filter mset_sort)

lemma rolling_burst:
  "0 < w \<Longrightarrow> rolling_count_from w (replicate m t) (replicate n t) = [Suc m ..< Suc (m + n)]"
proof (induction n arbitrary: m)
  case 0
  then show ?case by simp
next
  case (Suc n)
  have keep: "dropWhile (\<lambda>s. s \<le> t - w) (replicate m t) = replicate m t"
    using Suc.prems by (cases m) simp_all
  have step: "rolling_count_from w (replicate m t) (replicate (Suc n) t)
      = Suc m # rolling_count_from w (replicate (Suc m) t) (replicate n t)"
    using Suc.prems by (simp add: keep Let_def replicate_append_same)
  have "[Suc m ..< Suc (m + Suc n)] = Suc m # [Suc (Suc m) ..< Suc (Suc m + n)]"
    by (subst upt_rec) simp
  then show ?case
    using Suc.IH [OF Suc.prems, of "Suc m"] step by simp
qed

lemma burst_hits:
  assumes "0 < n"
  shows "filter (\<lambda>tc. int (snd tc) \<ge> int n) (zip (replicate n t) [Suc 0 ..< Suc n]) = [(t, n)]"
proof -
  have z: "zip (replicate n t) [Suc 0 ..< Suc n] = map (Pair t) [Suc 0 ..< Suc n]"
    by (simp add: zip_replicate1)
  have f: "filter (\<lambda>c. n \<le> c) [Suc 0 ..< Suc n] = [n]"
    using assms by simp
  have g: "filter (\<lambda>tc. int n \<le> int (snd tc)) (map (Pair t) cs)
      = map (Pair t) (filter (\<lambda>c. n \<le> c) cs)" for cs
    by (induction cs) auto
  show ?thesis
    by (simp only: z g f list.map)
qed

lemma group_alerts_burst:
  assumes "0 < wm" and "g \<noteq> []" and "\<forall>r\<in>set g. timestamp r = t"
  shows "group_alerts wm (int (length g)) gk (k, g)
       = [\<lparr>time = t, scope = gk, key_value = k, rule = rule_text (int (length g)) wm\<rparr>]"
proof -
  have ts: "map timestamp g = replicate (length g) t"
    using assms(3) by (rule const_map_replicate)
  have w: "0 < wm * ns_per_minute"
    using assms(1) by (simp add: ns_per_minute_def)
  have cs: "rolling_count (wm * ns_per_minute) (replicate (length g) t) = [Suc 0 ..< Suc (length g)]"
    using rolling_burst [OF w, of 0 t "length g"] by (simp add: rolling_count_def)
  have n: "0 < length g" using assms(2) by simp
  show ?thesis
    unfolding group_alerts_def Let_def fst_conv snd_conv ts cs burst_hits [OF n]
    by simp
qed

lemma filter_key_concat:
  assumes "distinct ks"
  shows "filter (\<lambda>a. key_value a = k) (concat (map (\<lambda>k'. group_alerts wm th gk (k', G k')) ks))
       = (if k \<in> set ks then group_alerts wm th gk (k, G k) else [])"
  using assms
proof (induction ks)
  case Nil
  then show ?case by simp
next
  case (Cons k' ks)
  have same: "filter (\<lambda>a. key_value a = k) (group_alerts wm th gk (k, G k)) = group_alerts wm th gk (k, G k)"
    using group_alerts_key by (simp add: filter_id_conv)
  have other: "k' \<noteq> k \<Longrightarrow> filter (\<lambda>a. key_value a = k) (group_alerts wm th gk (k', G k')) = []"
    using group_alerts_key by (fastforce simp: filter_empty_conv)
  show ?case
    using Cons same other by auto
qed

lemma alerts_of_key:
  "filter (\<lambda>a. key_value a = k) (alerts wm th scp base)
   = (if k \<in> column (group_key scp) ` set base \<and> k \<noteq> Missing
      then group_alerts wm th (group_key scp)
             (k, sort_key timestamp (filter (\<lambda>r. column (group_key scp) r = k) base))
      else [])"
proof -
  let ?f = "column (group_key scp)"
  let ?sb = "sort_key timestamp base"
  let ?ks = "sort_key cell_rank (remdups (filter (\<lambda>k. k \<noteq> Missing) (map ?f ?sb)))"
  have "alerts wm th scp base
      = concat (map (\<lambda>k'. group_alerts wm th (group_key scp) (k', filter (\<lambda>r. ?f r = k') ?sb)) ?ks)"
    by (simp add: alerts_def Let_def groupby_def comp_def)
  moreover have "distinct ?ks"
    using groupby_key_list [of ?f ?sb] by blast
  moreover have "k \<in> set ?ks \<longleftrightarrow> k \<in> ?f ` set base \<and> k \<noteq> Missing"
    by auto
  moreover have "filter (\<lambda>r. ?f r = k) ?sb = sort_key timestamp (filter (\<lambda>r. ?f r = k) base)"
    by (rule filter_sort)
  ultimately show ?thesis
    using filter_key_concat [of ?ks k wm th "group_key scp" "\<lambda>k'. filter (\<lambda>r. ?f r = k') ?sb"]
    by simp
qed

lemma alert_rule_shows:
  assumes "alerts wm th scp (trigger_rows filtered) \<noteq> []"
  shows "alert_rule wm th scp filtered page \<longleftrightarrow>
     (\<exists>shown. page = Error_table
          (''ALERTS TRIGGERED: '' @ decimal (length (alerts wm th scp (trigger_rows filtered)))) shown
        \<and> mset shown = mset (alerts wm th scp (trigger_rows filtered))
        \<and> sorted (map time shown))"
proof -
  have "trigger_rows filtered \<noteq> []"
    using assms by (auto simp: alerts_def groupby_def)
  then show ?thesis
    using assms by (cases page) (auto simp: alert_rule_def Let_def sort_values_time_def)
qed

lemma sorted_dropWhile_filter:
  fixes xs :: "int list"
  shows "sorted xs \<Longrightarrow> dropWhile (\<lambda>s. s \<le> c) xs = filter (\<lambda>s. c < s) xs"
proof (induction xs)
  case Nil
  then show ?case by simp
next
  case (Cons a xs)
  show ?case
  proof (cases "a \<le> c")
    case True
    then show ?thesis using Cons by simp
  next
    case False
    then have "\<forall>x\<in>set xs. c < x" using Cons.prems by auto
    then have "filter (\<lambda>s. c < s) xs = xs" by (rule filter_True)
    then show ?thesis using False by simp
  qed
qed

lemma rolling_count_from_char:
  assumes "sorted (pre @ ts)" and "0 < w" and "win = filter (\<lambda>s. b < s) pre"
    and "\<forall>t\<in>set ts. b \<le> t - w"
  shows "rolling_count_from w win ts
       = map (\<lambda>i. length (filter (\<lambda>s. ts ! i - w < s) (pre @ take (Suc i) ts))) [0..<length ts]"
  using assms
proof (induction ts arbitrary: pre win b)
  case Nil
  then show ?case by simp
next
  case (Cons t ts)
  let ?win' = "dropWhile (\<lambda>s. s \<le> t - w) win @ [t]"
  have sp: "sorted pre" using Cons.prems(1) by (simp add: sorted_append)
  then have "sorted win" using Cons.prems(3) by (simp add: sorted_wrt_filter)
  then have "dropWhile (\<lambda>s. s \<le> t - w) win = filter (\<lambda>s. t - w < s) win"
    by (rule sorted_dropWhile_filter)
  also have "\<dots> = filter (\<lambda>s. t - w < s) pre"
    using Cons.prems(3,4) by (auto intro: filter_cong)
  finally have win': "?win' = filter (\<lambda>s. t - w < s) (pre @ [t])"
    using Cons.prems(2) by simp
  have s': "sorted ((pre @ [t]) @ ts)" using Cons.prems(1) by simp
  have b': "\<forall>t'\<in>set ts. t - w \<le> t' - w"
    using Cons.prems(1) by (auto simp: sorted_append)
  have ih: "rolling_count_from w ?win' ts
      = map (\<lambda>i. length (filter (\<lambda>s. ts ! i - w < s) ((pre @ [t]) @ take (Suc i) ts))) [0..<length ts]"
    by (rule Cons.IH [OF s' Cons.prems(2) win' b'])
  let ?F = "\<lambda>i. length (filter (\<lambda>s. (t # ts) ! i - w < s) (pre @ take (Suc i) (t # ts)))"
  have h: "?F 0 = length ?win'"
    unfolding win' by simp
  have tl: "map (\<lambda>i. ?F (Suc i)) [0..<length ts] = rolling_count_from w ?win' ts"
    unfolding ih by simp
  have "rolling_count_from w win (t # ts) = length ?win' # rolling_count_from w ?win' ts"
    by (simp add: Let_def)
  also have "\<dots> = ?F 0 # map (\<lambda>i. ?F (Suc i)) [0..<length ts]"
    by (simp only: h tl)
  also have "\<dots> = map ?F [0..<Suc (length ts)]"
    by (rule map_upt_Suc [symmetric])
  finally show ?case by simp
qed

lemma rolling_count_prefix:
  assumes "sorted idx" and "0 < w"
  shows "rolling_count w idx
       = map (\<lambda>i. length (filter (\<lambda>s. idx ! i - w < s) (take (Suc i) idx))) [0..<length idx]"
proof (cases idx)
  case Nil
  then show ?thesis by (simp add: rolling_count_def)
next
  case (Cons t ts)
  have "\<forall>t'\<in>set idx. t - w \<le> t' - w"
    using assms(1) Cons by auto
  then show ?thesis
    using rolling_count_from_char [of "[]" idx w "[]" "t - w"] assms
    by (simp add: rolling_count_def)
qed

lemma rolling_count_nth:
  assumes "sorted idx" and "0 < w" and "i < length idx"
  shows "rolling_count w idx ! i
       = length (filter (\<lambda>s. idx ! i - w < s \<and> s \<le> idx ! i) (take (Suc i) idx))"
proof -
  have "\<forall>s\<in>set (take (Suc i) idx). s \<le> idx ! i"
  proof
    fix s assume "s \<in> set (take (Suc i) idx)"
    then obtain j where "j < Suc i" "j < length idx" "s = idx ! j"
      by (auto simp: in_set_conv_nth)
    then show "s \<le> idx ! i"
      using assms(1,3) by (simp add: sorted_nth_mono)
  qed
  then have "filter (\<lambda>s. idx ! i - w < s \<and> s \<le> idx ! i) (take (Suc i) idx)
           = filter (\<lambda>s. idx ! i - w < s) (take (Suc i) idx)"
    by (auto intro: filter_cong)
  then show ?thesis
    using assms by (simp add: rolling_count_prefix)
qed

lemma rolling_count_distinct:
  assumes "sorted idx" and "distinct idx" and "0 < w"
  shows "rolling_count w idx = map (spec_count w idx) idx"
proof (rule nth_equalityI)
  show "length (rolling_count w idx) = length (map (spec_count w idx) idx)"
    by (simp add: rolling_count_def rolling_count_from_length)
next
  fix i assume "i < length (rolling_count w idx)"
  then have i: "i < length idx"
    by (simp add: rolling_count_def rolling_count_from_length)
  let ?P = "\<lambda>s. idx ! i - w < s \<and> s \<le> idx ! i"
  have "\<forall>s\<in>set (drop (Suc i) idx). idx ! i < s"
  proof
    fix s assume "s \<in> set (drop (Suc i) idx)"
    then obtain n where n: "n < length idx - Suc i" "s = idx ! (Suc i + n)"
      by (auto simp: in_set_conv_nth)
    define j where "j = Suc i + n"
    have j: "i < j" "j < length idx" "s = idx ! j"
      using n by (simp_all add: j_def)
    then have "idx ! i \<le> idx ! j" using assms(1) by (simp add: sorted_nth_mono)
    moreover have "idx ! i \<noteq> idx ! j"
      using assms(2) j i by (simp add: nth_eq_iff_index_eq)
    ultimately show "idx ! i < s" using j by simp
  qed
  then have "filter ?P (drop (Suc i) idx) = []"
    by (auto simp: filter_empty_conv)
  then have "filter ?P idx = filter ?P (take (Suc i) idx)"
    by (metis append_Nil2 append_take_drop_id filter_append)
  then show "rolling_count w idx ! i = map (spec_count w idx) idx ! i"
    using i rolling_count_nth [OF assms(1,3) i] by (simp add: spec_count_def)
qed

lemma group_index_sorted:
  "kg \<in> set (groupby f (sort_key timestamp base)) \<Longrightarrow> sorted (map timestamp (snd kg))"
  by (simp add: groupby_group sorted_filter)

subsection \<open>The order of rows with equal timestamps\<close>

text \<open>
  The sort of the trigger rows by timestamp does not say in which order rows of
  equal timestamp come out. It makes no difference to the alerts: any arrangement
  of the rows in ascending order of timestamp gives the list that \<open>alerts\<close>
  computes.
\<close>

lemma cell_rank_inj: "inj cell_rank"
proof (rule injI)
  fix a b assume "cell_rank a = cell_rank b"
  then show "a = b" by (cases a; cases b) simp_all
qed

lemma group_alerts_index:
  "map timestamp g = map timestamp g' \<Longrightarrow>
   group_alerts wm th gk (k, g) = group_alerts wm th gk (k, g')"
  by (simp add: group_alerts_def)

lemma sorted_same_mset:
  fixes xs ys :: "int list"
  assumes "mset xs = mset ys" and "sorted xs" and "sorted ys"
  shows "xs = ys"
proof -
  have "sort ys = xs" using assms(1,2) by (rule properties_for_sort)
  moreover have "sort ys = ys" using assms(3) by (rule sort_key_id_if_sorted [where f = "\<lambda>x. x", simplified])
  ultimately show ?thesis by simp
qed

lemma group_keys_same:
  assumes "set sb = set sb'"
  shows "sort_key cell_rank (remdups (filter (\<lambda>k. k \<noteq> Missing) (map f sb)))
       = sort_key cell_rank (remdups (filter (\<lambda>k. k \<noteq> Missing) (map f sb')))"
    (is "?l = ?r")
proof (rule map_sorted_distinct_set_unique [where f = cell_rank])
  show "inj_on cell_rank (set ?l \<union> set ?r)"
    using cell_rank_inj by (rule inj_on_subset) simp
  show "sorted (map cell_rank ?l)" by (rule sorted_sort_key)
  show "sorted (map cell_rank ?r)" by (rule sorted_sort_key)
  have "distinct ?l" by simp
  then show "distinct (map cell_rank ?l)"
    using cell_rank_inj by (simp only: distinct_map) (simp add: inj_on_def inj_def)
  have "distinct ?r" by simp
  then show "distinct (map cell_rank ?r)"
    using cell_rank_inj by (simp only: distinct_map) (simp add: inj_on_def inj_def)
  show "set ?l = set ?r"
    using assms by simp
qed


lemma alerts_sort_independent:
  assumes "mset sb = mset base" and "sorted (map timestamp sb)"
  shows "concat (map (group_alerts wm th (group_key scp)) (groupby (column (group_key scp)) sb))
       = alerts wm th scp base"
proof -
  let ?f = "column (group_key scp)"
  let ?sb' = "sort_key timestamp base"
  have ms: "mset sb = mset ?sb'"
    using assms(1) by simp
  have set_eq: "set sb = set ?sb'"
    using ms by (rule mset_eq_setD)
  have grp: "map timestamp (filter (\<lambda>r. ?f r = k) sb)
           = map timestamp (filter (\<lambda>r. ?f r = k) ?sb')" for k
  proof (rule sorted_same_mset)
    show "mset (map timestamp (filter (\<lambda>r. ?f r = k) sb))
        = mset (map timestamp (filter (\<lambda>r. ?f r = k) ?sb'))"
      by (simp only: mset_map mset_filter ms)
    show "sorted (map timestamp (filter (\<lambda>r. ?f r = k) sb))"
      using assms(2) by (rule sorted_filter)
    show "sorted (map timestamp (filter (\<lambda>r. ?f r = k) ?sb'))"
      by (rule sorted_filter) (rule sorted_sort_key)
  qed
  have one: "group_alerts wm th (group_key scp) (k, filter (\<lambda>r. ?f r = k) sb)
           = group_alerts wm th (group_key scp) (k, filter (\<lambda>r. ?f r = k) ?sb')" for k
    using grp by (rule group_alerts_index)
  have "map (group_alerts wm th (group_key scp)) (groupby ?f sb)
      = map (group_alerts wm th (group_key scp)) (groupby ?f ?sb')"
    unfolding groupby_def group_keys_same [OF set_eq] map_map comp_def one ..
  then show ?thesis
    by (simp only: alerts_def Let_def)
qed

subsection \<open>The claims about the alert rule\<close>

text \<open>
  C1, where the code departs from it. Two trigger rows of device A at the same
  instant 10:00, window 5 minutes: the count of the first row is 1 and that of the
  second is 2, while both timestamps have two events of the group in the trailing
  window \<open>(09:55, 10:00]\<close>. With threshold 2 the rule therefore raises one alert,
  not one for each of the two rows.
\<close>

theorem window_count_tie_counterexample:
  "rolling_count (5 * ns_per_minute) (map timestamp tie_rows)
     \<noteq> map (spec_count (5 * ns_per_minute) (map timestamp tie_rows)) (map timestamp tie_rows)
   \<and> rolling_count (5 * ns_per_minute) (map timestamp tie_rows) = [1, 2]
   \<and> spec_count (5 * ns_per_minute) (map timestamp tie_rows) (at_minute 600) = 2
   \<and> length (alerts 5 2 ''Per device'' (trigger_rows tie_rows)) = 1"
  by code_simp

text \<open>
  C1, as the code has it. The three events of device A at 10:00, 10:02 and 10:04,
  window 5 minutes, grouped by device, give exactly one alert, at 10:04 for device
  A, with threshold 3, and no alert with threshold 4; the page shows exactly that.
  For every group of the sorted trigger rows and every window of at least one
  minute, the count of the row at position \<open>i\<close> of the group is the number of the
  rows at positions \<open>0..i\<close> whose timestamp lies in \<open>(t - w, t]\<close>, \<open>t\<close> the
  timestamp of row \<open>i\<close>; when the timestamps of the group are pairwise distinct,
  this is the number of the group's events with timestamp in \<open>(t - w, t]\<close>.
\<close>

theorem rolling_window_scenario_and_count:
  assumes "kg \<in> set (groupby (column (group_key scp)) (sort_key timestamp base))"
    and "1 \<le> window_min"
    and "idx = map timestamp (snd kg)"
    and "w = window_min * ns_per_minute"
  shows "alerts 5 3 ''Per device'' (trigger_rows (scenario d c1 c2 c3)) = 
           [\<lparr>time = d + at_minute 604, scope = ''device'', key_value = Str ''A'', rule = rule_text 3 5\<rparr>]
       \<and> (alert_rule 5 3 ''Per device'' (scenario d c1 c2 c3) page
          \<longleftrightarrow> page = Error_table ''ALERTS TRIGGERED: 1'' 
           [\<lparr>time = d + at_minute 604, scope = ''device'', key_value = Str ''A'', rule = rule_text 3 5\<rparr>])
       \<and> alerts 5 4 ''Per device'' (trigger_rows (scenario d c1 c2 c3)) = []
       \<and> (alert_rule 5 4 ''Per device'' (scenario d c1 c2 c3) page
          \<longleftrightarrow> page = Success ''No alerts triggered with current rule.'')
       \<and> length (rolling_count w idx) = length idx
       \<and> (\<forall>i<length idx. rolling_count w idx ! i
            = length (filter (\<lambda>s. idx ! i - w < s \<and> s \<le> idx ! i) (take (Suc i) idx)))
       \<and> (distinct idx \<longrightarrow> rolling_count w idx = map (spec_count w idx) idx)"
proof -
  let ?sc = "scenario d c1 c2 c3"
  let ?one = "\<lparr>time = d + at_minute 604, scope = ''device'', key_value = Str ''A'', rule = rule_text 3 5\<rparr>"
  note unfold = alerts_def scenario_def emulator_row_def group_alerts_def groupby_def
    rolling_count_def group_key_def column_def at_minute_def ns_per_minute_def Let_def
  have tr: "trigger_rows ?sc = ?sc"
    by (simp add: trigger_rows_def scenario_def emulator_row_def)
  have ne: "?sc \<noteq> []"
    by (simp add: scenario_def)
  have one: "decimal (Suc 0) = ''1''"
    by (simp add: decimal.simps digit_char_def)
  have a3: "alerts 5 3 ''Per device'' ?sc = [?one]"
    by (simp add: unfold)
  have a4: "alerts 5 4 ''Per device'' ?sc = []"
    by (simp add: unfold)
  have s1: "alerts 5 3 ''Per device'' (trigger_rows ?sc) = [?one]"
    by (simp only: tr a3)
  have s2: "alert_rule 5 3 ''Per device'' ?sc page
      \<longleftrightarrow> page = Error_table ''ALERTS TRIGGERED: 1'' [?one]"
    by (cases page) (auto simp: alert_rule_def Let_def tr ne a3 one sort_values_time_def)
  have s3: "alerts 5 4 ''Per device'' (trigger_rows ?sc) = []"
    by (simp only: tr a4)
  have s4: "alert_rule 5 4 ''Per device'' ?sc page
      \<longleftrightarrow> page = Success ''No alerts triggered with current rule.''"
    by (simp add: alert_rule_def Let_def tr ne a4)
  have sorted_idx: "sorted idx"
    unfolding assms(3) using assms(1) by (rule group_index_sorted)
  have w: "0 < w"
    using assms(2,4) by (simp add: ns_per_minute_def)
  have len: "length (rolling_count w idx) = length idx"
    by (simp add: rolling_count_def rolling_count_from_length)
  have nth: "\<forall>i<length idx. rolling_count w idx ! i
      = length (filter (\<lambda>s. idx ! i - w < s \<and> s \<le> idx ! i) (take (Suc i) idx))"
    using rolling_count_nth [OF sorted_idx w] by blast
  have dist: "distinct idx \<longrightarrow> rolling_count w idx = map (spec_count w idx) idx"
    using rolling_count_distinct [OF sorted_idx _ w] by blast
  from s1 s2 s3 s4 len nth dist show ?thesis by blast
qed

theorem rolling_window_scenario_and_count_witness:
  "(Str ''A'', scenario 0 (Str ''France'') (Str ''USA'') (Str ''Spain''))
     \<in> set (groupby (column (group_key ''Per device''))
              (sort_key timestamp (trigger_rows mixed_rows)))
   \<and> (1::int) \<le> 5
   \<and> distinct (map timestamp (scenario 0 (Str ''France'') (Str ''USA'') (Str ''Spain'')))
   \<and> rolling_count (5 * ns_per_minute)
       (map timestamp (scenario 0 (Str ''France'') (Str ''USA'') (Str ''Spain'')))
     = map (spec_count (5 * ns_per_minute)
              (map timestamp (scenario 0 (Str ''France'') (Str ''USA'') (Str ''Spain''))))
         (map timestamp (scenario 0 (Str ''France'') (Str ''USA'') (Str ''Spain'')))
   \<and> map (spec_count (5 * ns_per_minute)
              (map timestamp (scenario 0 (Str ''France'') (Str ''USA'') (Str ''Spain''))))
         (map timestamp (scenario 0 (Str ''France'') (Str ''USA'') (Str ''Spain''))) = [1, 2, 3]"
proof -
  let ?sc = "scenario 0 (Str ''France'') (Str ''USA'') (Str ''Spain'')"
  have m: "(Str ''A'', ?sc) \<in> set (groupby (column (group_key ''Per device''))
              (sort_key timestamp (trigger_rows mixed_rows)))"
    by code_simp
  have d: "distinct (map timestamp ?sc)"
    by code_simp
  have v: "map (spec_count (5 * ns_per_minute) (map timestamp ?sc)) (map timestamp ?sc) = [1, 2, 3]"
    by code_simp
  have "rolling_count (5 * ns_per_minute) (map timestamp ?sc)
      = map (spec_count (5 * ns_per_minute) (map timestamp ?sc)) (map timestamp ?sc)"
    using rolling_window_scenario_and_count
      [where kg = "(Str ''A'', ?sc)" and scp = "''Per device''" and base = "trigger_rows mixed_rows"
         and window_min = 5 and idx = "map timestamp ?sc" and w = "5 * ns_per_minute"]
      m d
    by simp
  with m d v show ?thesis by simp
qed

text \<open>
  C4, where the code departs from it. Device A has a trigger row at 09:59 and a
  burst of two trigger rows at 10:00. With window 5 minutes and threshold 2 the
  counts are 1, 2 and 3, and the rule raises two alerts at the shared instant
  10:00, one for each row of the burst.
\<close>

theorem burst_with_earlier_event_counterexample:
  "trigger_rows late_burst_rows = late_burst_rows
   \<and> map device late_burst_rows = [Str ''A'', Str ''A'', Str ''A'']
   \<and> map timestamp late_burst_rows = [at_minute 599, at_minute 600, at_minute 600]
   \<and> rolling_count (5 * ns_per_minute) (map timestamp late_burst_rows) = [1, 2, 3]
   \<and> alerts 5 2 ''Per device'' (trigger_rows late_burst_rows)
     = [\<lparr>time = at_minute 600, scope = ''device'', key_value = Str ''A'', rule = rule_text 2 5\<rparr>,
        \<lparr>time = at_minute 600, scope = ''device'', key_value = Str ''A'', rule = rule_text 2 5\<rparr>]"
  by code_simp

text \<open>
  C4, as the code has it. Take any window of at least one minute and any grouping.
  If the trigger rows of a group (its key not missing) are exactly a burst of N
  rows, N at least 1, that all carry the same timestamp, then with threshold N the
  rule raises exactly one alert for that group, at that instant, whatever the
  other groups hold; a page is shown, and every page the section may show holds
  exactly that one alert for the group.
\<close>

theorem burst_alerts_once:
  assumes "1 \<le> window_min"
    and "k \<noteq> Missing"
    and "burst = filter (\<lambda>r. column (group_key scp) r = k) (trigger_rows filtered)"
    and "burst \<noteq> []"
    and "\<forall>r\<in>set burst. timestamp r = t"
  shows "filter (\<lambda>a. key_value a = k)
           (alerts window_min (int (length burst)) scp (trigger_rows filtered))
         = [\<lparr>time = t, scope = group_key scp, key_value = k,
              rule = rule_text (int (length burst)) window_min\<rparr>]
       \<and> (\<exists>page. alert_rule window_min (int (length burst)) scp filtered page)
       \<and> (alert_rule window_min (int (length burst)) scp filtered page
          \<longrightarrow> filter (\<lambda>a. key_value a = k) (shown_alerts page)
            = [\<lparr>time = t, scope = group_key scp, key_value = k,
                 rule = rule_text (int (length burst)) window_min\<rparr>])"
proof -
  let ?f = "column (group_key scp)"
  let ?base = "trigger_rows filtered"
  let ?n = "int (length burst)"
  let ?sg = "sort_key timestamp burst"
  let ?als = "alerts window_min ?n scp ?base"
  let ?a = "\<lparr>time = t, scope = group_key scp, key_value = k, rule = rule_text ?n window_min\<rparr>"
  have mem: "k \<in> ?f ` set ?base"
  proof -
    obtain r where "r \<in> set burst" using assms(4) by (cases burst) auto
    then show ?thesis unfolding assms(3) by auto
  qed
  have "set ?sg = set burst" by simp
  then have "?sg \<noteq> []" using assms(4) by (metis set_empty)
  then have sg: "?sg \<noteq> [] \<and> (\<forall>r\<in>set ?sg. timestamp r = t) \<and> length ?sg = length burst"
    using assms(5) by simp
  have "filter (\<lambda>a. key_value a = k) ?als = group_alerts window_min ?n (group_key scp) (k, ?sg)"
    using mem assms(2) by (simp add: alerts_of_key assms(3))
  also have "\<dots> = [?a]"
    using group_alerts_burst [of window_min ?sg t "group_key scp" k] sg assms(1) by simp
  finally have first: "filter (\<lambda>a. key_value a = k) ?als = [?a]" .
  then have ne: "?als \<noteq> []" by auto
  have ex: "\<exists>page. alert_rule window_min ?n scp filtered page"
  proof -
    have "alert_rule window_min ?n scp filtered
        (Error_table (''ALERTS TRIGGERED: '' @ decimal (length ?als)) (sort_key time ?als))"
      unfolding alert_rule_shows [OF ne] by simp
    then show ?thesis ..
  qed
  have shown: "filter (\<lambda>a. key_value a = k) (shown_alerts page) = [?a]"
    if "alert_rule window_min ?n scp filtered page"
  proof -
    from that obtain shown where p: "page = Error_table
          (''ALERTS TRIGGERED: '' @ decimal (length ?als)) shown" and m: "mset shown = mset ?als"
      unfolding alert_rule_shows [OF ne] by blast
    have "mset (filter (\<lambda>a. key_value a = k) shown) = mset (filter (\<lambda>a. key_value a = k) ?als)"
      by (simp only: mset_filter m)
    then have "mset (filter (\<lambda>a. key_value a = k) shown) = {#?a#}"
      by (simp only: first mset.simps)
    then have "filter (\<lambda>a. key_value a = k) shown = [?a]"
      by (simp only: mset_single_iff)
    then show ?thesis
      by (simp add: p)
  qed
  from first ex shown show ?thesis by blast
qed

theorem burst_alerts_once_witness:
  "(1::int) \<le> 5
   \<and> burst_rows = filter (\<lambda>r. column (group_key ''Per device'') r = Str ''B'') (trigger_rows mixed_rows)
   \<and> burst_rows \<noteq> []
   \<and> map timestamp burst_rows = [at_minute 600, at_minute 600, at_minute 600]
   \<and> filter (\<lambda>a. key_value a = Str ''B'') (alerts 5 3 ''Per device'' (trigger_rows mixed_rows))
     = [\<lparr>time = at_minute 600, scope = ''device'', key_value = Str ''B'', rule = rule_text 3 5\<rparr>]"
proof -
  have b: "burst_rows = filter (\<lambda>r. column (group_key ''Per device'') r = Str ''B'') (trigger_rows mixed_rows)"
    by code_simp
  have ne: "burst_rows \<noteq> []"
    by (simp add: burst_rows_def)
  have same: "\<forall>r\<in>set burst_rows. timestamp r = at_minute 600"
    by (simp add: burst_rows_def emulator_row_def)
  have n: "int (length burst_rows) = 3"
    by (simp add: burst_rows_def)
  have gk: "group_key ''Per device'' = ''device''"
    by (simp add: group_key_def)
  have one: "(1::int) \<le> 5" by simp
  have k: "Str ''B'' \<noteq> Missing" by simp
  from burst_alerts_once [OF one k b ne same]
  have "filter (\<lambda>a. key_value a = Str ''B'') (alerts 5 3 ''Per device'' (trigger_rows mixed_rows))
      = [\<lparr>time = at_minute 600, scope = ''device'', key_value = Str ''B'', rule = rule_text 3 5\<rparr>]"
    by (simp add: n gk)
  moreover have "map timestamp burst_rows = [at_minute 600, at_minute 600, at_minute 600]"
    by (simp add: burst_rows_def emulator_row_def)
  ultimately show ?thesis using b ne by simp
qed

text \<open>
  C7, where the code departs from it. A table of one trigger row whose device cell
  is empty, grouped by device with threshold 1 and window 5 minutes: the row
  belongs to no group, no alert is raised, and the page reports that no alert was
  triggered.
\<close>

theorem threshold_one_missing_key_counterexample:
  "trigger_rows [keyless_row] = [keyless_row]
   \<and> device keyless_row = Missing
   \<and> alerts 5 1 ''Per device'' (trigger_rows [keyless_row]) = []
   \<and> alert_rule 5 1 ''Per device'' [keyless_row] (Success ''No alerts triggered with current rule.'')"
proof -
  have t: "trigger_rows [keyless_row] = [keyless_row]"
    by (simp add: trigger_rows_def keyless_row_def emulator_row_def)
  have d: "device keyless_row = Missing"
    by (simp add: keyless_row_def emulator_row_def)
  have a: "alerts 5 1 ''Per device'' [keyless_row] = []"
    by (simp add: alerts_def groupby_def group_key_def column_def d Let_def)
  show ?thesis
    by (simp add: t d a alert_rule_def Let_def)
qed

text \<open>
  C7, as the code has it. With threshold 1 and a window of at least one minute,
  for either grouping, the trigger rows whose group key is not missing get exactly
  one alert each: the alerts are as many as those rows and their times and group
  keys are those of the rows. When there is such a row, a page is shown, and every
  page the section may show announces that number of alerts and lists those
  alerts in ascending order of time.
\<close>

theorem threshold_one_alerts_every_keyed_event:
  assumes "1 \<le> window_min"
    and "keyed = filter (\<lambda>r. column (group_key scp) r \<noteq> Missing) (trigger_rows filtered)"
    and "keyed \<noteq> []"
  shows "length (alerts window_min 1 scp (trigger_rows filtered)) = length keyed
       \<and> mset (map (\<lambda>a. (time a, key_value a)) (alerts window_min 1 scp (trigger_rows filtered)))
         = mset (map (\<lambda>r. (timestamp r, column (group_key scp) r)) keyed)
       \<and> (\<exists>page. alert_rule window_min 1 scp filtered page)
       \<and> (alert_rule window_min 1 scp filtered page
          \<longrightarrow> (\<exists>shown. page = Error_table (''ALERTS TRIGGERED: '' @ decimal (length keyed)) shown
                \<and> mset shown = mset (alerts window_min 1 scp (trigger_rows filtered))
                \<and> sorted (map time shown)))"
proof -
  let ?base = "trigger_rows filtered"
  let ?als = "alerts window_min 1 scp ?base"
  have pairs: "mset (map (\<lambda>a. (time a, key_value a)) ?als)
      = mset (map (\<lambda>r. (timestamp r, column (group_key scp) r)) keyed)"
    unfolding assms(2) by (rule alerts_threshold_1_mset)
  have len: "length ?als = length keyed"
    using mset_eq_length [OF pairs] by simp
  have ne: "?als \<noteq> []"
    using len assms(3) by auto
  have ex: "\<exists>page. alert_rule window_min 1 scp filtered page"
  proof -
    have "alert_rule window_min 1 scp filtered
        (Error_table (''ALERTS TRIGGERED: '' @ decimal (length ?als)) (sort_key time ?als))"
      unfolding alert_rule_shows [OF ne] by simp
    then show ?thesis ..
  qed
  have shown: "alert_rule window_min 1 scp filtered page
      \<longrightarrow> (\<exists>shown. page = Error_table (''ALERTS TRIGGERED: '' @ decimal (length keyed)) shown
            \<and> mset shown = mset ?als \<and> sorted (map time shown))"
    unfolding alert_rule_shows [OF ne] len by blast
  from len pairs ex shown show ?thesis by blast
qed

theorem threshold_one_alerts_every_keyed_event_witness:
  "(1::int) \<le> 5
   \<and> length (trigger_rows mixed_rows) = 7
   \<and> length (filter (\<lambda>r. column (group_key ''Per device'') r \<noteq> Missing) (trigger_rows mixed_rows)) = 6
   \<and> length (alerts 5 1 ''Per device'' (trigger_rows mixed_rows)) = 6"
proof -
  let ?keyed = "filter (\<lambda>r. column (group_key ''Per device'') r \<noteq> Missing) (trigger_rows mixed_rows)"
  have one: "(1::int) \<le> 5" by simp
  have seven: "length (trigger_rows mixed_rows) = 7"
    by code_simp
  have six: "length ?keyed = 6"
    by code_simp
  then have ne: "?keyed \<noteq> []" by auto
  from threshold_one_alerts_every_keyed_event [OF one refl ne]
  have "length (alerts 5 1 ''Per device'' (trigger_rows mixed_rows)) = 6"
    by (simp add: six)
  with seven six show ?thesis by simp
qed

text \<open>
  C8. When no row of the filtered table is a trigger row, the alert section
  reports that as a note, for every window, threshold and scope: the note is the
  one page the section shows, it holds no alert, and no branch of the rule fails.
\<close>

theorem no_trigger_rows_no_alerts:
  assumes "trigger_rows filtered = []"
  shows "(alert_rule window_min threshold scp filtered page
           \<longleftrightarrow> page = Info ''No emulator_detected events in the current filtered dataset.'')
       \<and> (alert_rule window_min threshold scp filtered page \<longrightarrow> shown_alerts page = [])"
  using assms by (auto simp: alert_rule_def)

theorem no_trigger_rows_no_alerts_witness:
  "trigger_rows [root_row] = []
   \<and> alert_rule 5 10 ''Per country'' [root_row]
       (Info ''No emulator_detected events in the current filtered dataset.'')
   \<and> shown_alerts (Info ''No emulator_detected events in the current filtered dataset.'') = []"
proof -
  have e: "trigger_rows [root_row] = []"
    by (simp add: trigger_rows_def root_row_def)
  from no_trigger_rows_no_alerts [OF e, of 5 10 "''Per country''"
      "Info ''No emulator_detected events in the current filtered dataset.''"] e
  show ?thesis by simp
qed

end
